theory Spec2Isabelle
  imports Complex_Main "HOL-Library.List_Lexorder"
begin

section \<open>Text values\<close>

text \<open>
  A Python \<open>str\<close> (and an SQLite TEXT value) is a sequence of Unicode code points, so a
  text is a list of code-point numbers. The order on lists is the lexicographic one
  (\<open>List_Lexorder\<close>), which is Python's order on \<open>str\<close> and SQLite's BINARY collation
  on TEXT. \<open>lit\<close> turns an ASCII literal into a text.
\<close>

type_synonym str = "nat list"

definition lit :: "string \<Rightarrow> str" where
  "lit s = map of_char s"

text \<open>The code points for which \<open>str.isspace\<close> holds; \<open>str.strip()\<close> removes them at both ends.\<close>

definition is_space :: "nat \<Rightarrow> bool" where
  "is_space c \<longleftrightarrow>
     (9 \<le> c \<and> c \<le> 13) \<or> (28 \<le> c \<and> c \<le> 32) \<or> c = 133 \<or> c = 160 \<or> c = 5760 \<or>
     (8192 \<le> c \<and> c \<le> 8202) \<or> c = 8232 \<or> c = 8233 \<or> c = 8239 \<or> c = 8287 \<or> c = 12288"

definition strip :: "str \<Rightarrow> str" where
  "strip s = rev (dropWhile is_space (rev (dropWhile is_space s)))"

text \<open>
  \<open>str.casefold()\<close> replaces every code point by its full case folding and concatenates
  the results. The table below holds the foldings of the Basic Latin, Latin-1, Greek and
  Cyrillic blocks (U+0041..U+005A, U+00B5, U+00C0..U+00DF, U+0391..U+03AB, U+03C2,
  U+0400..U+042F); the code points of other blocks are left as they are.
\<close>

definition casefold_char :: "nat \<Rightarrow> str" where
  "casefold_char c =
     (if 65 \<le> c \<and> c \<le> 90 then [c + 32]
      else if c = 181 then [956]
      else if c = 223 then [115, 115]
      else if 192 \<le> c \<and> c \<le> 222 \<and> c \<noteq> 215 then [c + 32]
      else if 913 \<le> c \<and> c \<le> 939 \<and> c \<noteq> 930 then [c + 32]
      else if c = 962 then [963]
      else if 1024 \<le> c \<and> c \<le> 1039 then [c + 80]
      else if 1040 \<le> c \<and> c \<le> 1071 then [c + 32]
      else [c])"

definition casefold :: "str \<Rightarrow> str" where
  "casefold s = concat (map casefold_char s)"

text \<open>Python's \<open>needle in haystack\<close> on strings: \<open>needle\<close> occurs as a contiguous run.\<close>

fun contains :: "str \<Rightarrow> str \<Rightarrow> bool" where
  "contains needle [] = (needle = [])"
| "contains needle (c # cs) =
     (take (length needle) (c # cs) = needle \<or> contains needle cs)"

text \<open>\<open>s.split(sep)\<close> for a one-character separator: always at least one piece.\<close>

fun split :: "nat \<Rightarrow> str \<Rightarrow> str list" where
  "split sep [] = [[]]"
| "split sep (c # cs) =
     (if c = sep then [] # split sep cs
      else (case split sep cs of
              [] \<Rightarrow> [[c]]
            | w # ws \<Rightarrow> (c # w) # ws))"

text \<open>
  \<open>int(s)\<close> on a string, base 10: surrounding whitespace is dropped, one sign is
  allowed, then come decimal digits, with single underscores allowed between two digits.
  A decimal digit is a code point of Unicode category Nd; each block of ten starts at one
  of \<open>digit_zeros\<close>. \<open>None\<close> stands for the \<open>ValueError\<close> of a rejected literal.
  The limit that recent versions put on the number of digits is left out.
\<close>

definition digit_zeros :: "nat list" where
  "digit_zeros =
     [0x30, 0x660, 0x6F0, 0x7C0, 0x966, 0x9E6, 0xA66, 0xAE6, 0xB66, 0xBE6, 0xC66, 0xCE6,
      0xD66, 0xDE6, 0xE50, 0xED0, 0xF20, 0x1040, 0x1090, 0x17E0, 0x1810, 0x1946, 0x19D0,
      0x1A80, 0x1A90, 0x1B50, 0x1BB0, 0x1C40, 0x1C50, 0xA620, 0xA8D0, 0xA900, 0xA9D0,
      0xA9F0, 0xAA50, 0xABF0, 0xFF10, 0x104A0, 0x10D30, 0x11066, 0x110F0, 0x11136,
      0x111D0, 0x112F0, 0x11450, 0x114D0, 0x11650, 0x116C0, 0x11730, 0x118E0, 0x11950,
      0x11C50, 0x11D50, 0x11DA0, 0x16A60, 0x16AC0, 0x16B50, 0x1D7CE, 0x1D7D8, 0x1D7E2,
      0x1D7EC, 0x1D7F6, 0x1E140, 0x1E2F0, 0x1E950, 0x1FBF0]"

definition digit_value :: "nat \<Rightarrow> nat option" where
  "digit_value c =
     (case find (\<lambda>z. z \<le> c \<and> c < z + 10) digit_zeros of
        None \<Rightarrow> None
      | Some z \<Rightarrow> Some (c - z))"

text \<open>
  \<open>int_digits acc after_digit s\<close> reads the digits of \<open>s\<close> into \<open>acc\<close>; \<open>after_digit\<close>
  says that the previous character was a digit, which an underscore and the end need.
\<close>

fun int_digits :: "nat \<Rightarrow> bool \<Rightarrow> str \<Rightarrow> nat option" where
  "int_digits acc after_digit [] = (if after_digit then Some acc else None)"
| "int_digits acc after_digit (c # cs) =
     (if c = 95 then (if after_digit \<and> cs \<noteq> [] then int_digits acc False cs else None)
      else (case digit_value c of
              None \<Rightarrow> None
            | Some d \<Rightarrow> int_digits (acc * 10 + d) True cs))"

definition py_int :: "str \<Rightarrow> int option" where
  "py_int s =
     (case strip s of
        [] \<Rightarrow> None
      | c # cs \<Rightarrow>
          if c = 45 then map_option (\<lambda>n. - int n) (int_digits 0 False cs)
          else if c = 43 then map_option int (int_digits 0 False cs)
          else map_option int (int_digits 0 False (c # cs)))"

section \<open>The transactions table\<close>

text \<open>
  A row of the table \<open>transactions\<close>. The columns \<open>type\<close>, \<open>category\<close> and \<open>date\<close> are
  TEXT. The column \<open>amount\<close> has REAL affinity, which keeps a text that is not a number
  as it is, so a stored amount is either a number, \<open>Numeric x\<close>, or a value that
  \<open>float()\<close> rejects (such as the text \<open>abc\<close>), \<open>NonNumeric\<close>. The infinities and
  the not-a-number value of floating point are left out.

  Amounts are exact rationals here: the sums of the model are the exact sums that the
  binary floating-point additions of the program approximate.
\<close>

datatype amount_value = Numeric rat | NonNumeric

record row =
  tx_id :: nat
  tx_type :: str
  category :: str
  amount :: amount_value
  date :: str
  comment :: "str option"

text \<open>
  The database is the list of the table's rows, in the order in which the engine's scan
  delivers them to the sorter. With the index on \<open>date\<close> read backwards, as SQLite does
  for \<open>ORDER BY date DESC\<close>, that is descending \<open>id\<close> order within one date.
\<close>

type_synonym database = "row list"

datatype error = ValueError | IllegalMonthError | IndexError

text \<open>\<open>if period_from:\<close> and \<open>if category_query:\<close>: \<open>None\<close> and the empty string are false.\<close>

definition truthy :: "str option \<Rightarrow> bool" where
  "truthy p = (case p of None \<Rightarrow> False | Some s \<Rightarrow> s \<noteq> [])"

text \<open>The WHERE clause that \<open>fetch_transactions\<close> builds: \<open>1=1\<close>, and one test per bound given.\<close>

definition sql_where :: "str option \<Rightarrow> str option \<Rightarrow> row \<Rightarrow> bool" where
  "sql_where period_from period_to r =
     ((if truthy period_from then the period_from \<le> date r else True) \<and>
      (if truthy period_to then date r \<le> the period_to else True))"

text \<open>
  \<open>ORDER BY date DESC\<close> has no second key: it sorts by \<open>date\<close>, largest first, and rows
  with equal dates stay in the order of the scan.
\<close>

definition order_by_date_desc :: "row list \<Rightarrow> row list" where
  "order_by_date_desc rows = rev (sort_key date (rev rows))"

definition category_matches :: "str \<Rightarrow> row \<Rightarrow> bool" where
  "category_matches needle r = contains needle (casefold (strip (category r)))"

definition fetch_transactions ::
    "database \<Rightarrow> str option \<Rightarrow> str option \<Rightarrow> str option \<Rightarrow> row list" where
  "fetch_transactions db period_from period_to category_query =
     (let rows = order_by_date_desc (filter (sql_where period_from period_to) db)
      in if truthy category_query
         then (let needle = casefold (strip (the category_query))
               in filter (category_matches needle) rows)
         else rows)"

section \<open>Totals\<close>

definition py_float :: "amount_value \<Rightarrow> error + rat" where
  "py_float a = (case a of Numeric x \<Rightarrow> Inr x | NonNumeric \<Rightarrow> Inl ValueError)"

record totals =
  income :: rat
  expense :: rat

text \<open>
  \<open>expense_category_sums[c] += amt\<close> on a \<open>defaultdict(float)\<close>: a dict keeps its keys in
  the order of their first insertion, so it is an association list, and a new key is
  appended with \<open>0.0 + amt\<close>.
\<close>

fun add_sum :: "(str \<times> rat) list \<Rightarrow> str \<Rightarrow> rat \<Rightarrow> (str \<times> rat) list" where
  "add_sum [] c amt = [(c, 0 + amt)]"
| "add_sum ((k, v) # kvs) c amt =
     (if k = c then (k, v + amt) # kvs else (k, v) # add_sum kvs c amt)"

text \<open>The loop \<open>for t in transactions\<close> of \<open>index\<close>; \<open>float()\<close> is called before the type is read.\<close>

fun totals_loop ::
    "row list \<Rightarrow> totals \<times> (str \<times> rat) list \<Rightarrow> error + (totals \<times> (str \<times> rat) list)" where
  "totals_loop [] st = Inr st"
| "totals_loop (t # ts) (tot, cat_sums) =
     (case py_float (amount t) of
        Inl e \<Rightarrow> Inl e
      | Inr amt \<Rightarrow>
          if tx_type t = lit ''income'' then
            totals_loop ts (tot\<lparr>income := income tot + amt\<rparr>, cat_sums)
          else if tx_type t = lit ''expense'' then
            totals_loop ts (tot\<lparr>expense := expense tot + amt\<rparr>, add_sum cat_sums (category t) amt)
          else totals_loop ts (tot, cat_sums))"

text \<open>
  \<open>round(x, 2)\<close> and the template's \<open>'%.2f'\<close>: the multiple of 1/100 nearest to the exact
  value, the even one when two are equally near.
\<close>

definition round_half_even :: "rat \<Rightarrow> int" where
  "round_half_even x =
     (let f = \<lfloor>x\<rfloor>; r = x - of_int f
      in if r < 1 / 2 then f else if 1 / 2 < r then f + 1 else if even f then f else f + 1)"

definition round2 :: "rat \<Rightarrow> rat" where
  "round2 x = of_int (round_half_even (x * 100)) / 100"

section \<open>Calendar\<close>

text \<open>\<open>calendar.isleap\<close>, \<open>calendar.mdays\<close> and \<open>calendar.monthrange(year, month)[1]\<close>.\<close>

definition isleap :: "int \<Rightarrow> bool" where
  "isleap y \<longleftrightarrow> y mod 4 = 0 \<and> (y mod 100 \<noteq> 0 \<or> y mod 400 = 0)"

definition mdays :: "nat list" where
  "mdays = [0, 31, 28, 31, 30, 31, 30, 31, 31, 30, 31, 30, 31]"

definition days_of_month :: "int \<Rightarrow> nat \<Rightarrow> nat" where
  "days_of_month y m = mdays ! m + (if m = 2 \<and> isleap y then 1 else 0)"

definition monthrange :: "int \<Rightarrow> int \<Rightarrow> error + nat" where
  "monthrange y m =
     (if \<not> (1 \<le> m \<and> m \<le> 12) then Inl IllegalMonthError
      else Inr (days_of_month y (nat m)))"

text \<open>
  \<open>date(y, m, d).isoformat()\<close>: the constructor raises \<open>ValueError\<close> outside the years
  1..9999, the months 1..12 and the days of the month; the format is \<open>%04d-%02d-%02d\<close>.
\<close>

definition digits2 :: "nat \<Rightarrow> str" where
  "digits2 n = [48 + n div 10 mod 10, 48 + n mod 10]"

definition digits4 :: "nat \<Rightarrow> str" where
  "digits4 n = [48 + n div 1000 mod 10, 48 + n div 100 mod 10, 48 + n div 10 mod 10, 48 + n mod 10]"

definition date_isoformat :: "int \<Rightarrow> int \<Rightarrow> nat \<Rightarrow> error + str" where
  "date_isoformat y m d =
     (if 1 \<le> y \<and> y \<le> 9999 \<and> 1 \<le> m \<and> m \<le> 12 \<and> 1 \<le> d \<and> d \<le> days_of_month y (nat m)
      then Inr (digits4 (nat y) @ [45] @ digits2 (nat m) @ [45] @ digits2 d)
      else Inl ValueError)"

section \<open>Parsing the date of a row\<close>

text \<open>
  \<open>datetime.fromisoformat(s)\<close>, read for the date it returns. The string is
  \<open>YYYY-MM-DD\<close>, alone or followed by one separator character and a time
  \<open>HH[:MM[:SS[.fff[fff]]]]\<close> with an optional offset \<open>+HH[:MM[:SS[.fff[fff]]]]\<close>; the
  digits are ASCII digits. The constructor then checks the fields, so a string whose day
  is not a day of its month is rejected. \<open>None\<close> stands for the exception raised.
\<close>

definition is_digit :: "nat \<Rightarrow> bool" where
  "is_digit c \<longleftrightarrow> 48 \<le> c \<and> c \<le> 57"

definition parse_digits :: "str \<Rightarrow> nat option" where
  "parse_digits s =
     (if s \<noteq> [] \<and> list_all is_digit s
      then Some (foldl (\<lambda>acc c. acc * 10 + (c - 48)) 0 s) else None)"

definition parse_isoformat_date :: "str \<Rightarrow> (nat \<times> nat \<times> nat) option" where
  "parse_isoformat_date s =
     (if length s = 10 \<and> s ! 4 = 45 \<and> s ! 7 = 45 then
        (case (parse_digits (take 4 s), parse_digits (take 2 (drop 5 s)), parse_digits (drop 8 s)) of
           (Some y, Some m, Some d) \<Rightarrow>
             if 1 \<le> y \<and> 1 \<le> m \<and> m \<le> 12 \<and> 1 \<le> d \<and> d \<le> days_of_month (int y) m
             then Some (y, m, d) else None
         | _ \<Rightarrow> None)
      else None)"

definition parse_hh_mm_ss :: "str \<Rightarrow> (nat \<times> nat \<times> nat) option" where
  "parse_hh_mm_ss s =
     (case map (\<lambda>f. if length f = 2 then parse_digits f else None) (split 58 s) of
        [Some h] \<Rightarrow> Some (h, 0, 0)
      | [Some h, Some m] \<Rightarrow> Some (h, m, 0)
      | [Some h, Some m, Some sec] \<Rightarrow> Some (h, m, sec)
      | _ \<Rightarrow> None)"

definition parse_hh_mm_ss_ff :: "str \<Rightarrow> (nat \<times> nat \<times> nat) option" where
  "parse_hh_mm_ss_ff s =
     (case split 46 s of
        [hms] \<Rightarrow> parse_hh_mm_ss hms
      | [hms, ff] \<Rightarrow>
          if length hms = 8 \<and> (length ff = 3 \<or> length ff = 6) \<and> list_all is_digit ff
          then parse_hh_mm_ss hms else None
      | _ \<Rightarrow> None)"

definition parse_isoformat_time :: "str \<Rightarrow> bool" where
  "parse_isoformat_time s =
     (let clock = takeWhile (\<lambda>c. c \<noteq> 43 \<and> c \<noteq> 45) s;
          tz = drop (length clock) s
      in (case parse_hh_mm_ss_ff clock of
            None \<Rightarrow> False
          | Some (h, m, sec) \<Rightarrow>
              h < 24 \<and> m < 60 \<and> sec < 60 \<and>
              (case tz of
                 [] \<Rightarrow> True
               | sign # offset \<Rightarrow>
                   (case parse_hh_mm_ss_ff offset of
                      None \<Rightarrow> False
                    | Some (oh, om, os) \<Rightarrow> oh * 3600 + om * 60 + os < 86400))))"

definition fromisoformat :: "str \<Rightarrow> (nat \<times> nat \<times> nat) option" where
  "fromisoformat s =
     (case parse_isoformat_date (take 10 s) of
        None \<Rightarrow> None
      | Some ymd \<Rightarrow>
          if length s = 10 then Some ymd
          else if parse_isoformat_time (drop 11 s) then Some ymd
          else None)"

section \<open>The monthly series\<close>

text \<open>
  \<open>xs[i] += v\<close> on a Python list: a negative index counts from the end, and an index
  outside the list raises \<open>IndexError\<close>.
\<close>

definition add_at :: "rat list \<Rightarrow> int \<Rightarrow> rat \<Rightarrow> error + rat list" where
  "add_at xs i v =
     (if 0 \<le> i \<and> i < int (length xs) then
        Inr (xs[nat i := xs ! nat i + v])
      else if i < 0 \<and> - int (length xs) \<le> i then
        Inr (xs[nat (int (length xs) + i) := xs ! nat (int (length xs) + i) + v])
      else Inl IndexError)"

text \<open>
  The loop \<open>for tx in monthly_transactions\<close> of \<open>index\<close>: a row whose date does not
  parse is skipped before its amount is read.
\<close>

fun monthly_loop ::
    "row list \<Rightarrow> rat list \<times> rat list \<Rightarrow> error + (rat list \<times> rat list)" where
  "monthly_loop [] st = Inr st"
| "monthly_loop (tx # txs) (income_by_day, expense_by_day) =
     (case fromisoformat (date tx) of
        None \<Rightarrow> monthly_loop txs (income_by_day, expense_by_day)
      | Some (y, m, d) \<Rightarrow>
          (case py_float (amount tx) of
             Inl e \<Rightarrow> Inl e
           | Inr amt \<Rightarrow>
               if tx_type tx = lit ''income'' then
                 (case add_at income_by_day (int d - 1) amt of
                    Inl e \<Rightarrow> Inl e
                  | Inr income_by_day' \<Rightarrow> monthly_loop txs (income_by_day', expense_by_day))
               else if tx_type tx = lit ''expense'' then
                 (case add_at expense_by_day (int d - 1) amt of
                    Inl e \<Rightarrow> Inl e
                  | Inr expense_by_day' \<Rightarrow> monthly_loop txs (income_by_day, expense_by_day'))
               else monthly_loop txs (income_by_day, expense_by_day)))"

text \<open>
  The resolution of the month: \<open>year, mon = map(int, month.split('-'))\<close> inside
  \<open>try\<close>. \<open>parse_month\<close> is the body of the \<open>try\<close>, with \<open>None\<close> for every exception
  (a piece that is not an integer, or a number of pieces other than two).
\<close>

record pydate =
  d_year :: int
  d_month :: int
  d_day :: nat

definition parse_month :: "str \<Rightarrow> (int \<times> int) option" where
  "parse_month month =
     (case map py_int (split 45 month) of
        [Some y, Some m] \<Rightarrow> Some (y, m)
      | _ \<Rightarrow> None)"

definition resolve_month :: "pydate \<Rightarrow> str \<Rightarrow> int \<times> int" where
  "resolve_month today month =
     (if month \<noteq> [] then
        (case parse_month month of
           Some (y, m) \<Rightarrow> (y, m)
         | None \<Rightarrow> (d_year today, d_month today))
      else (d_year today, d_month today))"

text \<open>
  The second half of \<open>index\<close>, from \<open>calendar.monthrange\<close> to the two rounded lists:
  the day count, the two bounds, the rows of the month and the loop over them.
\<close>

definition monthly_series :: "database \<Rightarrow> int \<Rightarrow> int \<Rightarrow> error + (rat list \<times> rat list)" where
  "monthly_series db y m =
     (case monthrange y m of
        Inl e \<Rightarrow> Inl e
      | Inr days_in_month \<Rightarrow>
          (case date_isoformat y m 1 of
             Inl e \<Rightarrow> Inl e
           | Inr first_day \<Rightarrow>
               (case date_isoformat y m days_in_month of
                  Inl e \<Rightarrow> Inl e
                | Inr last_day \<Rightarrow>
                    (case monthly_loop (fetch_transactions db (Some first_day) (Some last_day) None)
                            (replicate days_in_month 0, replicate days_in_month 0) of
                       Inl e \<Rightarrow> Inl e
                     | Inr (income_by_day, expense_by_day) \<Rightarrow>
                         Inr (map round2 income_by_day, map round2 expense_by_day)))))"

section \<open>The page\<close>

text \<open>
  The query parameters of the request, \<open>None\<close> for a parameter that is not sent, and what
  \<open>index\<close> hands to the template. The strings \<open>today\<close>, \<open>display_month\<close> and
  \<open>default_month\<close> and the day labels are left out: nothing below depends on them.
\<close>

record args =
  arg_from :: "str option"
  arg_to :: "str option"
  arg_q :: "str option"
  arg_month :: "str option"

record payload =
  transactions :: "row list"
  page_totals :: totals
  expense_categories :: "str list"
  expense_cat_values :: "rat list"
  income_values :: "rat list"
  expense_values :: "rat list"

definition get_default :: "str option \<Rightarrow> str \<Rightarrow> str" where
  "get_default v dflt = (case v of None \<Rightarrow> dflt | Some s \<Rightarrow> s)"

definition index :: "database \<Rightarrow> args \<Rightarrow> pydate \<Rightarrow> error + payload" where
  "index db request today =
     (let frm = arg_from request;
          to = arg_to request;
          q = strip (get_default (arg_q request) []);
          month = get_default (arg_month request) [];
          txs = fetch_transactions db frm to (if q \<noteq> [] then Some q else None)
      in (case totals_loop txs (\<lparr>income = 0, expense = 0\<rparr>, []) of
            Inl e \<Rightarrow> Inl e
          | Inr (tot, expense_category_sums) \<Rightarrow>
              (case resolve_month today month of
                 (y, mon) \<Rightarrow>
                   (case monthly_series db y mon of
                      Inl e \<Rightarrow> Inl e
                    | Inr (inc_values, exp_values) \<Rightarrow>
                        Inr \<lparr>transactions = txs,
                             page_totals = tot,
                             expense_categories = map fst expense_category_sums,
                             expense_cat_values = map (\<lambda>(c, v). round2 v) expense_category_sums,
                             income_values = inc_values,
                             expense_values = exp_values\<rparr>))))"


section \<open>Notions used in the properties\<close>


definition corrupt :: "row \<Rightarrow> bool" where
  "corrupt t = (amount t = NonNumeric)"

definition corrupt_dated :: "row \<Rightarrow> bool" where
  "corrupt_dated t = (amount t = NonNumeric \<and> fromisoformat (date t) \<noteq> None)"

definition day_in_range :: "nat \<Rightarrow> row \<Rightarrow> bool" where
  "day_in_range n t =
     (case fromisoformat (date t) of
        None \<Rightarrow> True
      | Some (y, m, d) \<Rightarrow> 1 \<le> d \<and> d \<le> n)"

text \<open>
  \<open>monthly_transactions\<close> is what \<open>fetch_transactions(first_day, last_day, None)\<close> returns
  in \<open>index\<close>, for a year and a month of which the two bounds exist. \<open>calendar_days\<close> is
  the number of days of a month of the Gregorian calendar, stated without the table of
  the library.
\<close>

definition monthly_transactions :: "database \<Rightarrow> int \<Rightarrow> int \<Rightarrow> row list" where
  "monthly_transactions db y m =
     (case (date_isoformat y m 1, date_isoformat y m (days_of_month y (nat m))) of
        (Inr first_day, Inr last_day) \<Rightarrow> fetch_transactions db (Some first_day) (Some last_day) None
      | _ \<Rightarrow> [])"

definition calendar_days :: "int \<Rightarrow> int \<Rightarrow> nat" where
  "calendar_days y m =
     (if m = 4 \<or> m = 6 \<or> m = 9 \<or> m = 11 then 30
      else if m = 2 then (if (y mod 4 = 0 \<and> y mod 100 \<noteq> 0) \<or> y mod 400 = 0 then 29 else 28)
      else 31)"

text \<open>
  \<open>visible_transactions\<close> is the list that the first call of \<open>fetch_transactions\<close> in
  \<open>index\<close> returns, and \<open>resolved_month\<close> the year and month that \<open>index\<close> settles on.
  \<open>is_income\<close> and \<open>is_expense\<close> are the two tests of the loops on the type of a row;
  \<open>amounts_of P\<close> is the exact sum of the amounts of the rows that satisfy \<open>P\<close>,
  \<open>category_sum\<close> the exact sum of the expenses of one category, and \<open>cat_total\<close> the
  value that a dict of sums holds for a category, 0 when it holds none.
\<close>

definition visible_transactions :: "database \<Rightarrow> args \<Rightarrow> row list" where
  "visible_transactions db request =
     fetch_transactions db (arg_from request) (arg_to request)
       (if strip (get_default (arg_q request) []) \<noteq> []
        then Some (strip (get_default (arg_q request) [])) else None)"

definition resolved_month :: "pydate \<Rightarrow> args \<Rightarrow> int \<times> int" where
  "resolved_month today request = resolve_month today (get_default (arg_month request) [])"






section \<open>Example data\<close>

text \<open>
  Rows, tables, requests and a current day on which the properties below are evaluated.
  The amounts of \<open>small_change_db\<close> are 1/256 = 0.00390625, a number that binary
  floating point holds exactly, as it holds their sum 1/128.
\<close>

definition cafe_row :: row where
  "cafe_row = \<lparr>tx_id = 1, tx_type = lit ''expense'', category = [1050, 1072, 1092, 1077],
                amount = Numeric 5, date = lit ''2024-03-05'', comment = None\<rparr>"

definition groceries_row :: row where
  "groceries_row = \<lparr>tx_id = 2, tx_type = lit ''expense'', category = lit ''Groceries'',
                amount = Numeric 20, date = lit ''2024-03-05'', comment = None\<rparr>"

text \<open>Two rows of one date, as a backward scan of the index on \<open>date\<close> delivers them.\<close>

definition ties_db :: database where
  "ties_db =
     [\<lparr>tx_id = 2, tx_type = lit ''income'', category = lit ''b'', amount = Numeric 2,
        date = lit ''2024-03-01'', comment = None\<rparr>,
      \<lparr>tx_id = 1, tx_type = lit ''income'', category = lit ''a'', amount = Numeric 1,
        date = lit ''2024-03-01'', comment = None\<rparr>]"

definition march_db :: database where
  "march_db =
     [\<lparr>tx_id = 3, tx_type = lit ''expense'', category = lit ''food'', amount = Numeric (1 / 4),
        date = lit ''2024-03-20'', comment = None\<rparr>,
      \<lparr>tx_id = 2, tx_type = lit ''expense'', category = lit ''Food'', amount = Numeric (3 / 2),
        date = lit ''2024-03-05'', comment = None\<rparr>,
      \<lparr>tx_id = 1, tx_type = lit ''income'', category = lit ''Salary'', amount = Numeric 1000,
        date = lit ''2024-03-01'', comment = None\<rparr>]"

definition no_args :: args where
  "no_args = \<lparr>arg_from = None, arg_to = None, arg_q = None, arg_month = None\<rparr>"

definition mid_march :: pydate where
  "mid_march = \<lparr>d_year = 2024, d_month = 3, d_day = 15\<rparr>"

definition leap_day_db :: database where
  "leap_day_db =
     [\<lparr>tx_id = 1, tx_type = lit ''income'', category = lit ''Salary'', amount = Numeric 10,
        date = lit ''2024-02-29'', comment = None\<rparr>]"

definition food_args :: args where
  "food_args = \<lparr>arg_from = Some (lit ''2024-03-02''), arg_to = Some (lit ''2024-03-31''),
                 arg_q = Some (lit '' FOOD''), arg_month = None\<rparr>"





section \<open>Evaluation\<close>

lemmas text_eval = lit_def strip_def is_space_def casefold_def casefold_char_def

lemmas fetch_eval = fetch_transactions_def truthy_def order_by_date_desc_def sql_where_def
  category_matches_def

lemmas calendar_eval = isleap_def mdays_def days_of_month_def monthrange_def digits2_def
  digits4_def date_isoformat_def


section \<open>The filter\<close>

lemma contains_iff: "contains needle hay \<longleftrightarrow> (\<exists>ps ss. hay = ps @ needle @ ss)"
proof (induction hay)
  case Nil
  then show ?case by auto
next
  case (Cons c cs)
  have "take (length needle) (c # cs) = needle \<longleftrightarrow> (\<exists>ss. c # cs = needle @ ss)"
    by (metis append_eq_conv_conj append_take_drop_id)
  moreover have "(\<exists>ps ss. c # cs = ps @ needle @ ss) \<longleftrightarrow>
      (\<exists>ss. c # cs = needle @ ss) \<or> (\<exists>ps ss. cs = ps @ needle @ ss)"
  proof
    assume "\<exists>ps ss. c # cs = ps @ needle @ ss"
    then obtain ps ss where e: "c # cs = ps @ needle @ ss" by blast
    show "(\<exists>ss. c # cs = needle @ ss) \<or> (\<exists>ps ss. cs = ps @ needle @ ss)"
    proof (cases ps)
      case Nil
      with e show ?thesis by auto
    next
      case (Cons p ps')
      with e have "cs = ps' @ needle @ ss" by simp
      then show ?thesis by blast
    qed
  next
    assume "(\<exists>ss. c # cs = needle @ ss) \<or> (\<exists>ps ss. cs = ps @ needle @ ss)"
    then show "\<exists>ps ss. c # cs = ps @ needle @ ss"
    proof
      assume "\<exists>ss. c # cs = needle @ ss"
      then obtain ss where "c # cs = [] @ needle @ ss" by auto
      then show ?thesis by blast
    next
      assume "\<exists>ps ss. cs = ps @ needle @ ss"
      then obtain ps ss where "c # cs = (c # ps) @ needle @ ss" by auto
      then show ?thesis by blast
    qed
  qed
  ultimately show ?case using Cons.IH by simp
qed

lemma set_order_by_date_desc: "set (order_by_date_desc rows) = set rows"
  by (simp add: order_by_date_desc_def)

lemma sorted_order_by_date_desc:
  "sorted_wrt (\<lambda>a b. date b \<le> date a) (order_by_date_desc rows)"
proof -
  have "sorted (map date (sort_key date (rev rows)))" by (rule sorted_sort_key)
  then have "sorted_wrt (\<lambda>a b. date a \<le> date b) (sort_key date (rev rows))"
    by (simp add: sorted_wrt_map)
  then show ?thesis
    by (simp add: order_by_date_desc_def sorted_wrt_rev)
qed

lemma ties_order_by_date_desc:
  "filter (\<lambda>r. date r = d) (order_by_date_desc rows) = filter (\<lambda>r. date r = d) rows"
proof -
  have "filter (\<lambda>r. date r = d) (sort_key date (rev rows)) = filter (\<lambda>r. date r = d) (rev rows)"
    by (rule sort_key_stable)
  then show ?thesis
    by (simp add: order_by_date_desc_def rev_filter [symmetric])
qed

lemma filter_order_by_date_desc:
  "filter P (order_by_date_desc rows) = order_by_date_desc (filter P rows)"
  by (simp add: order_by_date_desc_def rev_filter [symmetric] filter_sort)

lemma fetch_transactions_filter:
  "fetch_transactions db pf pt q =
     order_by_date_desc (filter (\<lambda>r. sql_where pf pt r \<and>
        (if truthy q then category_matches (casefold (strip (the q))) r else True)) db)"
  by (simp add: fetch_transactions_def Let_def filter_order_by_date_desc)

lemma set_fetch_transactions:
  "set (fetch_transactions db pf pt q) =
     {r \<in> set db. sql_where pf pt r \<and>
        (if truthy q then category_matches (casefold (strip (the q))) r else True)}"
  by (simp add: fetch_transactions_filter set_order_by_date_desc)

text \<open>
  Claim C4. With a query that is not empty after trimming, \<open>fetch_transactions\<close> keeps a
  row of the date-filtered rows exactly when the trimmed, case-folded query occurs in the
  trimmed, case-folded category of the row. The category of \<open>cafe_row\<close> is the Cyrillic
  word of code points 1050, 1072, 1092, 1077; it is found by its first three letters in
  lower case and in upper case and by its last three letters, and \<open>Groceries\<close> is found
  by \<open>GRO\<close> and by \<open>eries\<close>.
\<close>

theorem category_filter_iff:
  assumes "strip q \<noteq> []"
  shows "(r \<in> set (fetch_transactions db pf pt (Some q)) \<longleftrightarrow>
            r \<in> set (fetch_transactions db pf pt None) \<and>
            (\<exists>ps ss. casefold (strip (category r)) = ps @ casefold (strip q) @ ss)) \<and>
         fetch_transactions [cafe_row] None None (Some [1082, 1072, 1092]) = [cafe_row] \<and>
         fetch_transactions [cafe_row] None None (Some [1050, 1040, 1060]) = [cafe_row] \<and>
         fetch_transactions [cafe_row] None None (Some [1072, 1092, 1077]) = [cafe_row] \<and>
         fetch_transactions [groceries_row] None None (Some (lit ''GRO'')) = [groceries_row] \<and>
         fetch_transactions [groceries_row] None None (Some (lit ''eries'')) = [groceries_row]"
proof -
  from assms have "q \<noteq> []" by (auto simp: strip_def)
  then have iff: "r \<in> set (fetch_transactions db pf pt (Some q)) \<longleftrightarrow>
            r \<in> set (fetch_transactions db pf pt None) \<and>
            (\<exists>ps ss. casefold (strip (category r)) = ps @ casefold (strip q) @ ss)"
    by (auto simp: set_fetch_transactions truthy_def category_matches_def contains_iff)
  have e1: "fetch_transactions [cafe_row] None None (Some [1082, 1072, 1092]) = [cafe_row]"
    by (simp add: fetch_eval text_eval cafe_row_def)
  have e2: "fetch_transactions [cafe_row] None None (Some [1050, 1040, 1060]) = [cafe_row]"
    by (simp add: fetch_eval text_eval cafe_row_def)
  have e3: "fetch_transactions [cafe_row] None None (Some [1072, 1092, 1077]) = [cafe_row]"
    by (simp add: fetch_eval text_eval cafe_row_def)
  have e4: "fetch_transactions [groceries_row] None None (Some (lit ''GRO'')) = [groceries_row]"
    by (simp add: fetch_eval text_eval groceries_row_def)
  have e5: "fetch_transactions [groceries_row] None None (Some (lit ''eries'')) = [groceries_row]"
    by (simp add: fetch_eval text_eval groceries_row_def)
  from iff e1 e2 e3 e4 e5 show ?thesis by blast
qed

theorem category_filter_iff_witness:
  "strip (lit '' GRO '') \<noteq> [] \<and>
   groceries_row \<in> set (fetch_transactions [cafe_row, groceries_row] None None (Some (lit '' GRO ''))) \<and>
   cafe_row \<notin> set (fetch_transactions [cafe_row, groceries_row] None None (Some (lit '' GRO '')))"
proof -
  have h: "strip (lit '' GRO '') \<noteq> []" by (simp add: fetch_eval text_eval cafe_row_def groceries_row_def ties_db_def)
  have m: "groceries_row \<in> set (fetch_transactions [cafe_row, groceries_row] None None None)"
    by (simp add: fetch_eval text_eval cafe_row_def groceries_row_def ties_db_def)
  have "contains (casefold (strip (lit '' GRO ''))) (casefold (strip (category groceries_row)))"
    by (simp add: fetch_eval text_eval cafe_row_def groceries_row_def ties_db_def)
  then have c: "\<exists>ps ss. casefold (strip (category groceries_row)) = ps @ casefold (strip (lit '' GRO '')) @ ss"
    by (simp add: contains_iff)
  have "\<not> contains (casefold (strip (lit '' GRO ''))) (casefold (strip (category cafe_row)))"
    by (simp add: fetch_eval text_eval cafe_row_def groceries_row_def ties_db_def)
  then have n: "\<not> (\<exists>ps ss. casefold (strip (category cafe_row)) = ps @ casefold (strip (lit '' GRO '')) @ ss)"
    by (simp add: contains_iff)
  from category_filter_iff [OF h, where r = groceries_row and db = "[cafe_row, groceries_row]" and pf = None and pt = None]
       category_filter_iff [OF h, where r = cafe_row and db = "[cafe_row, groceries_row]" and pf = None and pt = None] h m c n
  show ?thesis by blast
qed

text \<open>
  Claim C6. Monotonicity of the date filter: when every date between \<open>A\<close> and \<open>B\<close>
  lies between \<open>A'\<close> and \<open>B'\<close>, each row returned for the bounds \<open>A\<close>, \<open>B\<close> is returned
  for the bounds \<open>A'\<close>, \<open>B'\<close>. The upper bound \<open>B\<close> is a bound that is given: the empty
  string counts as no bound in \<open>fetch_transactions\<close>.
\<close>

theorem filter_monotone:
  assumes "B \<noteq> []"
    and "\<And>d. A \<le> d \<Longrightarrow> d \<le> B \<Longrightarrow> A' \<le> d \<and> d \<le> B'"
  shows "set (fetch_transactions db (Some A) (Some B) q) \<subseteq>
         set (fetch_transactions db (Some A') (Some B') q)"
proof
  fix r
  assume "r \<in> set (fetch_transactions db (Some A) (Some B) q)"
  then have r: "r \<in> set db" "sql_where (Some A) (Some B) r"
    "if truthy q then category_matches (casefold (strip (the q))) r else True"
    by (simp_all add: set_fetch_transactions)
  from r(2) assms(1) have "date r \<le> B" by (simp add: sql_where_def truthy_def)
  moreover from r(2) have "A \<le> date r"
    by (cases "A = []") (simp_all add: sql_where_def truthy_def)
  ultimately have "A' \<le> date r \<and> date r \<le> B'" using assms(2) by blast
  then have "sql_where (Some A') (Some B') r" by (simp add: sql_where_def truthy_def)
  with r show "r \<in> set (fetch_transactions db (Some A') (Some B') q)"
    by (simp add: set_fetch_transactions)
qed

theorem filter_monotone_witness:
  "lit ''2024-03-01'' \<noteq> [] \<and>
   set (fetch_transactions [cafe_row, groceries_row] (Some (lit ''2024-03-05'')) (Some (lit ''2024-03-20'')) None) \<subseteq>
   set (fetch_transactions [cafe_row, groceries_row] (Some (lit ''2024-03-01'')) (Some (lit ''2024-03-31'')) None) \<and>
   cafe_row \<in> set (fetch_transactions [cafe_row, groceries_row] (Some (lit ''2024-03-05'')) (Some (lit ''2024-03-20'')) None)"
proof -
  have h: "lit ''2024-03-20'' \<noteq> []" by (simp add: fetch_eval text_eval cafe_row_def groceries_row_def ties_db_def)
  have a: "lit ''2024-03-01'' \<le> lit ''2024-03-05''" by (simp add: fetch_eval text_eval cafe_row_def groceries_row_def ties_db_def)
  have b: "lit ''2024-03-20'' \<le> lit ''2024-03-31''" by (simp add: fetch_eval text_eval cafe_row_def groceries_row_def ties_db_def)
  have i: "\<And>d. lit ''2024-03-05'' \<le> d \<Longrightarrow> d \<le> lit ''2024-03-20'' \<Longrightarrow>
             lit ''2024-03-01'' \<le> d \<and> d \<le> lit ''2024-03-31''"
    using a b by (meson order_trans)
  have m: "cafe_row \<in> set (fetch_transactions [cafe_row, groceries_row] (Some (lit ''2024-03-05'')) (Some (lit ''2024-03-20'')) None)"
    by (simp add: fetch_eval text_eval cafe_row_def groceries_row_def ties_db_def)
  have n: "lit ''2024-03-01'' \<noteq> []" by (simp add: fetch_eval text_eval cafe_row_def groceries_row_def ties_db_def)
  from filter_monotone [OF h i, where db = "[cafe_row, groceries_row]" and q = None] m n show ?thesis by blast
qed

text \<open>
  Claim C5, as stated, fails on \<open>ties_db\<close>: the two rows have the same date, and the row
  of id 2 comes out before the row of id 1.
\<close>

theorem tie_order_counterexample:
  "map tx_id (fetch_transactions ties_db None None None) = [2, 1] \<and>
   map date (fetch_transactions ties_db None None None) = [lit ''2024-03-01'', lit ''2024-03-01'']"
  by (simp add: fetch_eval text_eval cafe_row_def groceries_row_def ties_db_def)

text \<open>
  Claim C5, amended. The result of \<open>fetch_transactions\<close> is sorted by date, largest
  first, and the rows of one date come out in the order in which the scan of the table
  delivered them.
\<close>

theorem fetch_sorted_by_date:
  "sorted_wrt (\<lambda>a b. date b \<le> date a) (fetch_transactions db pf pt q) \<and>
   filter (\<lambda>r. date r = d) (fetch_transactions db pf pt q) =
     filter (\<lambda>r. date r = d) (filter (\<lambda>r. r \<in> set (fetch_transactions db pf pt q)) db)"
proof -
  have "filter (\<lambda>r. r \<in> set (fetch_transactions db pf pt q)) db =
        filter (\<lambda>r. sql_where pf pt r \<and>
          (if truthy q then category_matches (casefold (strip (the q))) r else True)) db"
    by (rule filter_cong) (auto simp: set_fetch_transactions)
  then show ?thesis
    by (simp add: fetch_transactions_filter sorted_order_by_date_desc ties_order_by_date_desc)
qed

section \<open>The days of the resolved month\<close>

lemma between_common_prefix:
  fixes s :: "nat list"
  assumes "p @ a \<le> s" and "s \<le> p @ b"
  shows "\<exists>t. s = p @ t"
  using assms
proof (induction p arbitrary: s)
  case Nil
  then show ?case by simp
next
  case (Cons x p)
  show ?case
  proof (cases s)
    case Nil
    with Cons.prems(1) show ?thesis by simp
  next
    case (Cons c cs)
    with Cons.prems have "x = c" and "p @ a \<le> cs" and "cs \<le> p @ b"
      by (auto split: if_splits)
    with Cons.IH [of cs] Cons show ?thesis by auto
  qed
qed

lemma mod10_le: "(k::nat) mod 10 \<le> 9"
  by (simp add: Suc_leI le_simps)

lemma digits2_value: "(n::nat) div 10 * 10 + n mod 10 = n"
  by simp

lemma parse_digits_digits2:
  assumes "n < 100"
  shows "parse_digits (digits2 n) = Some n"
proof -
  have d: "n div 10 mod 10 = n div 10" using assms by simp
  have "parse_digits (digits2 n) = Some (n div 10 mod 10 * 10 + n mod 10)"
    by (simp add: parse_digits_def digits2_def is_digit_def mod10_le)
  with d show ?thesis by simp
qed


lemma parse_digits_digits4:
  assumes "n < 10000"
  shows "parse_digits (digits4 n) = Some n"
proof -
  have e1: "n div 10 * 10 + n mod 10 = n" by simp
  have "n div 100 = n div 10 div 10" by (simp add: div_mult2_eq)
  then have e2: "n div 100 * 10 + n div 10 mod 10 = n div 10" by simp
  have "n div 1000 = n div 100 div 10" by (simp add: div_mult2_eq)
  then have e3: "n div 1000 * 10 + n div 100 mod 10 = n div 100" by simp
  have e4: "n div 1000 mod 10 = n div 1000" using assms by simp
  have "parse_digits (digits4 n) =
      Some (((n div 1000 mod 10 * 10 + n div 100 mod 10) * 10 + n div 10 mod 10) * 10 + n mod 10)"
    by (simp add: parse_digits_def digits4_def is_digit_def mod10_le)
  also have "\<dots> = Some n" by (simp only: e4 e3 e2 e1)
  finally show ?thesis .
qed

lemma date_isoformat_Inr:
  assumes "date_isoformat y m d = Inr s"
  shows "1 \<le> y \<and> y \<le> 9999 \<and> 1 \<le> m \<and> m \<le> 12 \<and>
         s = (digits4 (nat y) @ [45] @ digits2 (nat m) @ [45]) @ digits2 d"
  using assms by (auto simp: date_isoformat_def split: if_splits)

lemma fromisoformat_Some:
  assumes "fromisoformat s = Some ymd"
  shows "parse_isoformat_date (take 10 s) = Some ymd"
  using assms by (auto simp: fromisoformat_def split: option.splits if_splits)

lemma parse_isoformat_date_Some:
  assumes "parse_isoformat_date s = Some (y, m, d)"
  shows "parse_digits (take 4 s) = Some y \<and> parse_digits (take 2 (drop 5 s)) = Some m \<and>
         1 \<le> d \<and> d \<le> days_of_month (int y) m"
  using assms by (auto simp: parse_isoformat_date_def split: option.splits if_splits)

lemma in_month_day:
  assumes f: "date_isoformat y m 1 = Inr first_day"
    and l: "date_isoformat y m n = Inr last_day"
    and lo: "first_day \<le> s" and hi: "s \<le> last_day"
    and p: "fromisoformat s = Some (y', m', d)"
  shows "1 \<le> d \<and> d \<le> days_of_month y (nat m)"
proof -
  let ?P = "digits4 (nat y) @ [45] @ digits2 (nat m) @ [45]"
  from date_isoformat_Inr [OF f] have y: "1 \<le> y" "y \<le> 9999" and m: "1 \<le> m" "m \<le> 12"
    and first: "first_day = ?P @ digits2 1" by simp_all
  from date_isoformat_Inr [OF l] have last: "last_day = ?P @ digits2 n" by simp
  from lo hi first last obtain t where s: "s = ?P @ t"
    using between_common_prefix [of ?P "digits2 1" s "digits2 n"] by auto
  from parse_isoformat_date_Some [OF fromisoformat_Some [OF p]]
  have py: "parse_digits (take 4 (take 10 s)) = Some y'"
    and pm: "parse_digits (take 2 (drop 5 (take 10 s))) = Some m'"
    and d: "1 \<le> d" "d \<le> days_of_month (int y') m'" by simp_all
  have "take 4 (take 10 s) = digits4 (nat y)"
    by (simp add: s digits4_def digits2_def)
  with py parse_digits_digits4 [of "nat y"] y have y': "y' = nat y" by simp
  have "take 2 (drop 5 (take 10 s)) = digits2 (nat m)"
    by (simp add: s digits4_def digits2_def)
  with pm parse_digits_digits2 [of "nat m"] m have m': "m' = nat m" by simp
  from d y y' m' show ?thesis by simp
qed

lemma add_at_length: "add_at xs i v = Inr ys \<Longrightarrow> length ys = length xs"
  by (auto simp: add_at_def split: if_splits)

lemma add_at_day:
  assumes "1 \<le> d" and "d \<le> length xs"
  shows "add_at xs (int d - 1) v = Inr (xs[d - 1 := xs ! (d - 1) + v])"
proof -
  obtain k where k: "d = Suc k" using assms(1) by (cases d) auto
  with assms(2) have "k < length xs" by simp
  then show ?thesis by (simp add: add_at_def k)
qed

lemma days_of_month_range:
  assumes "1 \<le> m" and "m \<le> 12"
  shows "28 \<le> days_of_month y m \<and> days_of_month y m \<le> 31"
proof -
  from assms have "m \<in> {1, 2, 3, 4, 5, 6, 7, 8, 9, 10, 11, 12}" by auto arith
  then show ?thesis
    by (auto simp: days_of_month_def mdays_def)
qed

lemma monthly_loop_cases:
  assumes "list_all (day_in_range n) txs" and "length ins = n" and "length exs = n"
  shows "if list_ex corrupt_dated txs then monthly_loop txs (ins, exs) = Inl ValueError
         else (\<exists>ins' exs'. monthly_loop txs (ins, exs) = Inr (ins', exs') \<and>
                 length ins' = n \<and> length exs' = n)"
  using assms
proof (induction txs arbitrary: ins exs)
  case Nil
  then show ?case by simp
next
  case (Cons tx txs)
  from Cons.prems(1) have rest: "list_all (day_in_range n) txs" and here: "day_in_range n tx"
    by simp_all
  show ?case
  proof (cases "fromisoformat (date tx)")
    case None
    then have "monthly_loop (tx # txs) (ins, exs) = monthly_loop txs (ins, exs)"
      and "list_ex corrupt_dated (tx # txs) = list_ex corrupt_dated txs"
      by (simp_all add: corrupt_dated_def)
    with Cons.IH [OF rest Cons.prems(2,3)] show ?thesis by simp
  next
    case (Some ymd)
    obtain y m d where ymd: "ymd = (y, m, d)" by (cases ymd) auto
    with Some here Cons.prems(2,3) have d: "1 \<le> d" "d \<le> length ins" "d \<le> length exs"
      by (simp_all add: day_in_range_def)
    show ?thesis
    proof (cases "amount tx")
      case NonNumeric
      with Some ymd show ?thesis by (simp add: corrupt_dated_def py_float_def)
    next
      case (Numeric x)
      with Some have nc: "list_ex corrupt_dated (tx # txs) = list_ex corrupt_dated txs"
        by (simp add: corrupt_dated_def)
      let ?ins = "ins[d - 1 := ins ! (d - 1) + x]"
      let ?exs = "exs[d - 1 := exs ! (d - 1) + x]"
      have step: "monthly_loop (tx # txs) (ins, exs) =
          (if tx_type tx = lit ''income'' then monthly_loop txs (?ins, exs)
           else if tx_type tx = lit ''expense'' then monthly_loop txs (ins, ?exs)
           else monthly_loop txs (ins, exs))"
        using Some ymd Numeric add_at_day [OF d(1,2)] add_at_day [OF d(1,3)]
        by (simp add: py_float_def)
      have a: "length ?ins = n" "length ?exs = n" using Cons.prems(2,3) by simp_all
      from Cons.IH [OF rest a(1) Cons.prems(3)] Cons.IH [OF rest Cons.prems(2) a(2)]
           Cons.IH [OF rest Cons.prems(2,3)]
      show ?thesis unfolding nc step by (simp split: if_splits)
    qed
  qed
qed

lemma date_isoformat_valid:
  assumes "1 \<le> y" "y \<le> 9999" "1 \<le> m" "m \<le> 12" "1 \<le> d" "d \<le> days_of_month y (nat m)"
  shows "date_isoformat y m d = Inr (digits4 (nat y) @ [45] @ digits2 (nat m) @ [45] @ digits2 d)"
  using assms by (simp add: date_isoformat_def)

lemma days_of_month_calendar:
  assumes "1 \<le> m" and "m \<le> 12"
  shows "days_of_month y (nat m) = calendar_days y m"
proof -
  from assms have "m \<in> {1, 2, 3, 4, 5, 6, 7, 8, 9, 10, 11, 12}" by auto arith
  then show ?thesis
    by (auto simp: days_of_month_def mdays_def calendar_days_def isleap_def)
qed

lemma monthly_series_invalid:
  assumes "\<not> (1 \<le> y \<and> y \<le> 9999 \<and> 1 \<le> m \<and> m \<le> 12)"
  shows "monthly_series db y m = Inl IllegalMonthError \<or> monthly_series db y m = Inl ValueError"
  using assms by (auto simp: monthly_series_def monthrange_def date_isoformat_def)

lemma monthly_series_unfold:
  assumes "1 \<le> y" "y \<le> 9999" "1 \<le> m" "m \<le> 12"
  shows "monthly_series db y m =
     (case monthly_loop (monthly_transactions db y m)
             (replicate (days_of_month y (nat m)) 0, replicate (days_of_month y (nat m)) 0) of
        Inl e \<Rightarrow> Inl e
      | Inr (ins, exs) \<Rightarrow> Inr (map round2 ins, map round2 exs))"
proof -
  from assms have "1 \<le> nat m" and "nat m \<le> 12" by simp_all
  from days_of_month_range [OF this, of y]
  have r: "1 \<le> days_of_month y (nat m)" by linarith
  from assms r show ?thesis
    by (simp add: monthly_series_def monthrange_def monthly_transactions_def date_isoformat_def
          split: sum.splits prod.splits)
qed

lemma monthly_transactions_in_range:
  "list_all (day_in_range (days_of_month y (nat m))) (monthly_transactions db y m)"
proof (cases "date_isoformat y m 1")
  case (Inl e)
  then show ?thesis by (simp add: monthly_transactions_def)
next
  case f: (Inr first_day)
  show ?thesis
  proof (cases "date_isoformat y m (days_of_month y (nat m))")
    case (Inl e)
    with f show ?thesis by (simp add: monthly_transactions_def)
  next
    case l: (Inr last_day)
    from date_isoformat_Inr [OF f] have ne: "first_day \<noteq> []" by (simp add: digits4_def)
    from date_isoformat_Inr [OF l] have nl: "last_day \<noteq> []" by (simp add: digits4_def)
    have "day_in_range (days_of_month y (nat m)) tx"
      if "tx \<in> set (fetch_transactions db (Some first_day) (Some last_day) None)" for tx
    proof -
      from that ne nl have b: "first_day \<le> date tx" "date tx \<le> last_day"
        by (simp_all add: set_fetch_transactions sql_where_def truthy_def)
      show ?thesis
      proof (cases "fromisoformat (date tx)")
        case None
        then show ?thesis by (simp add: day_in_range_def)
      next
        case (Some ymd)
        obtain y' m' d where "ymd = (y', m', d)" by (cases ymd) auto
        with Some in_month_day [OF f l b, of y' m' d] show ?thesis
          by (simp add: day_in_range_def)
      qed
    qed
    with f l show ?thesis by (simp add: monthly_transactions_def list_all_iff)
  qed
qed

lemma monthly_series_cases:
  assumes "1 \<le> y" "y \<le> 9999" "1 \<le> m" "m \<le> 12"
  shows "if list_ex corrupt_dated (monthly_transactions db y m)
         then monthly_series db y m = Inl ValueError
         else (\<exists>ins exs. monthly_series db y m = Inr (ins, exs) \<and>
                 length ins = days_of_month y (nat m) \<and> length exs = days_of_month y (nat m))"
proof -
  let ?n = "days_of_month y (nat m)"
  from monthly_loop_cases [OF monthly_transactions_in_range, of "replicate ?n 0" y m "replicate ?n 0" db]
  have c: "if list_ex corrupt_dated (monthly_transactions db y m)
       then monthly_loop (monthly_transactions db y m) (replicate ?n 0, replicate ?n 0) = Inl ValueError
       else (\<exists>ins exs. monthly_loop (monthly_transactions db y m) (replicate ?n 0, replicate ?n 0) = Inr (ins, exs) \<and>
                 length ins = ?n \<and> length exs = ?n)"
    by simp
  show ?thesis
  proof (cases "list_ex corrupt_dated (monthly_transactions db y m)")
    case True
    with c show ?thesis by (simp add: monthly_series_unfold [OF assms])
  next
    case False
    with c obtain ins exs where
      "monthly_loop (monthly_transactions db y m) (replicate ?n 0, replicate ?n 0) = Inr (ins, exs)"
      "length ins = ?n" "length exs = ?n" by auto
    with False show ?thesis by (simp add: monthly_series_unfold [OF assms])
  qed
qed

section \<open>The page as a whole\<close>

lemma index_unfold:
  "index db request today =
     (case totals_loop (visible_transactions db request) (\<lparr>income = 0, expense = 0\<rparr>, []) of
        Inl e \<Rightarrow> Inl e
      | Inr (tot, expense_category_sums) \<Rightarrow>
          (case monthly_series db (fst (resolved_month today request)) (snd (resolved_month today request)) of
             Inl e \<Rightarrow> Inl e
           | Inr (inc_values, exp_values) \<Rightarrow>
               Inr \<lparr>transactions = visible_transactions db request,
                    page_totals = tot,
                    expense_categories = map fst expense_category_sums,
                    expense_cat_values = map (\<lambda>(c, v). round2 v) expense_category_sums,
                    income_values = inc_values,
                    expense_values = exp_values\<rparr>))"
  by (simp add: index_def visible_transactions_def resolved_month_def Let_def
        split: sum.splits prod.splits)

lemma index_Inr:
  assumes "index db request today = Inr p"
  shows "\<exists>cat_sums.
           totals_loop (visible_transactions db request) (\<lparr>income = 0, expense = 0\<rparr>, []) =
             Inr (page_totals p, cat_sums) \<and>
           transactions p = visible_transactions db request \<and>
           expense_categories p = map fst cat_sums \<and>
           expense_cat_values p = map (\<lambda>(c, v). round2 v) cat_sums \<and>
           monthly_series db (fst (resolved_month today request)) (snd (resolved_month today request)) =
             Inr (income_values p, expense_values p)"
  using assms unfolding index_unfold
  by (auto split: sum.splits prod.splits)



lemma monthly_series_Inr_valid:
  assumes "monthly_series db y m = Inr r"
  shows "1 \<le> y \<and> y \<le> 9999 \<and> 1 \<le> m \<and> m \<le> 12"
proof (rule ccontr)
  assume "\<not> (1 \<le> y \<and> y \<le> 9999 \<and> 1 \<le> m \<and> m \<le> 12)"
  from monthly_series_invalid [OF this, of db] assms show False by auto
qed

lemma monthly_series_Inr_length:
  assumes "monthly_series db y m = Inr (ins, exs)"
  shows "length ins = calendar_days y m \<and> length exs = calendar_days y m"
proof -
  from monthly_series_Inr_valid [OF assms] have v: "1 \<le> y" "y \<le> 9999" "1 \<le> m" "m \<le> 12"
    by simp_all
  from monthly_series_cases [OF v, of db] assms
  have "length ins = days_of_month y (nat m) \<and> length exs = days_of_month y (nat m)"
    by (auto split: if_splits)
  with days_of_month_calendar [OF v(3,4), of y] show ?thesis by simp
qed

text \<open>
  Claim C8. When the monthly series is produced, both lists have as many entries as the
  month has days in the calendar, 29 for February of a leap year and 28 otherwise; and it
  is produced for every year 1..9999 and month 1..12 whose rows hold no corrupt amount
  under a date that parses. The lists that \<open>index\<close> hands to the template have that length
  for the resolved month.
\<close>

theorem monthly_series_length:
  "(monthly_series db y m = Inr (ins, exs) \<longrightarrow>
      length ins = calendar_days y m \<and> length exs = calendar_days y m) \<and>
   (1 \<le> y \<and> y \<le> 9999 \<and> 1 \<le> m \<and> m \<le> 12 \<and>
    \<not> list_ex corrupt_dated (monthly_transactions db y m) \<longrightarrow>
      (\<exists>ins exs. monthly_series db y m = Inr (ins, exs))) \<and>
   (index db request today = Inr p \<and> resolved_month today request = (y, m) \<longrightarrow>
      length (income_values p) = calendar_days y m \<and>
      length (expense_values p) = calendar_days y m) \<and>
   calendar_days y 2 = (if y mod 4 = 0 \<and> (y mod 100 \<noteq> 0 \<or> y mod 400 = 0) then 29 else 28)"
proof -
  have a: "monthly_series db y m = Inr (ins, exs) \<longrightarrow>
      length ins = calendar_days y m \<and> length exs = calendar_days y m"
    using monthly_series_Inr_length by blast
  have b: "1 \<le> y \<and> y \<le> 9999 \<and> 1 \<le> m \<and> m \<le> 12 \<and>
    \<not> list_ex corrupt_dated (monthly_transactions db y m) \<longrightarrow>
      (\<exists>ins exs. monthly_series db y m = Inr (ins, exs))"
  proof
    assume h: "1 \<le> y \<and> y \<le> 9999 \<and> 1 \<le> m \<and> m \<le> 12 \<and>
      \<not> list_ex corrupt_dated (monthly_transactions db y m)"
    then have v: "1 \<le> y" "y \<le> 9999" "1 \<le> m" "m \<le> 12" by simp_all
    from monthly_series_cases [OF v, of db] h
    show "\<exists>ins exs. monthly_series db y m = Inr (ins, exs)" by auto
  qed
  have c: "index db request today = Inr p \<and> resolved_month today request = (y, m) \<longrightarrow>
      length (income_values p) = calendar_days y m \<and>
      length (expense_values p) = calendar_days y m"
  proof
    assume h: "index db request today = Inr p \<and> resolved_month today request = (y, m)"
    with index_Inr [of db request today p]
    have "monthly_series db y m = Inr (income_values p, expense_values p)" by auto
    from monthly_series_Inr_length [OF this]
    show "length (income_values p) = calendar_days y m \<and>
      length (expense_values p) = calendar_days y m" .
  qed
  have d: "calendar_days y 2 = (if y mod 4 = 0 \<and> (y mod 100 \<noteq> 0 \<or> y mod 400 = 0) then 29 else 28)"
  proof -
    have "y mod 400 mod 4 = y mod 4" by (rule mod_mod_cancel) simp
    then have "y mod 400 = 0 \<Longrightarrow> y mod 4 = 0" by simp
    then show ?thesis by (auto simp: calendar_days_def)
  qed
  from a b c d show ?thesis by blast
qed

theorem monthly_series_length_witness:
  "\<exists>ins exs. monthly_series leap_day_db 2024 2 = Inr (ins, exs) \<and>
     length ins = 29 \<and> length exs = 29"
proof -
  have rows: "monthly_transactions leap_day_db 2024 2 = leap_day_db"
    by (simp add: monthly_transactions_def calendar_eval fetch_eval leap_day_db_def lit_def)
  have ok: "\<not> list_ex corrupt_dated (monthly_transactions leap_day_db 2024 2)"
    unfolding rows by (simp add: leap_day_db_def corrupt_dated_def)
  have "\<exists>ins exs. monthly_series leap_day_db 2024 2 = Inr (ins, exs)"
    using monthly_series_length [of leap_day_db 2024 2] ok by simp
  then obtain ins exs where r: "monthly_series leap_day_db 2024 2 = Inr (ins, exs)" by blast
  with monthly_series_length [of leap_day_db 2024 2 ins exs]
  have "length ins = calendar_days 2024 2 \<and> length exs = calendar_days 2024 2" by simp
  then have "length ins = 29 \<and> length exs = 29" by (simp add: calendar_days_def)
  with r show ?thesis by blast
qed

text \<open>
  Claim C9. Two runs of \<open>index\<close> on the same table and day that differ only in \<open>from\<close>,
  \<open>to\<close> and \<open>q\<close> hand the same two monthly lists to the template: the lists of
  \<open>monthly_series\<close>, which reads the table and the resolved month only.
\<close>

theorem monthly_series_noninterference:
  assumes "index db r1 today = Inr p1" and "index db r2 today = Inr p2"
    and "arg_month r1 = arg_month r2"
  shows "income_values p1 = income_values p2 \<and> expense_values p1 = expense_values p2 \<and>
         monthly_series db (fst (resolved_month today r1)) (snd (resolved_month today r1)) =
           Inr (income_values p1, expense_values p1)"
proof -
  from assms(3) have "resolved_month today r1 = resolved_month today r2"
    by (simp add: resolved_month_def)
  with index_Inr [OF assms(1)] index_Inr [OF assms(2)] show ?thesis by auto
qed

lemma totals_loop_cases:
  "if list_ex corrupt ts then totals_loop ts st = Inl ValueError
   else (\<exists>tot cat_sums. totals_loop ts st = Inr (tot, cat_sums))"
proof (induction ts arbitrary: st)
  case Nil
  then show ?case by (cases st) simp
next
  case (Cons t ts)
  obtain tot cat_sums where st: "st = (tot, cat_sums)" by (cases st) auto
  show ?case
  proof (cases "amount t")
    case NonNumeric
    with st show ?thesis by (simp add: py_float_def corrupt_def)
  next
    case (Numeric x)
    then have nc: "list_ex corrupt (t # ts) = list_ex corrupt ts" by (simp add: corrupt_def)
    have step: "totals_loop (t # ts) st =
        (if tx_type t = lit ''income'' then totals_loop ts (tot\<lparr>income := income tot + x\<rparr>, cat_sums)
         else if tx_type t = lit ''expense'' then
           totals_loop ts (tot\<lparr>expense := expense tot + x\<rparr>, add_sum cat_sums (category t) x)
         else totals_loop ts (tot, cat_sums))"
      using Numeric st by (simp add: py_float_def)
    from Cons.IH [of "(tot\<lparr>income := income tot + x\<rparr>, cat_sums)"]
         Cons.IH [of "(tot\<lparr>expense := expense tot + x\<rparr>, add_sum cat_sums (category t) x)"]
         Cons.IH [of "(tot, cat_sums)"]
    show ?thesis unfolding nc step by (simp split: if_splits)
  qed
qed

lemma index_returns:
  assumes "\<not> list_ex corrupt (visible_transactions db request)"
    and "resolved_month today request = (y, m)"
    and "1 \<le> y" "y \<le> 9999" "1 \<le> m" "m \<le> 12"
    and "\<not> list_ex corrupt_dated (monthly_transactions db y m)"
  shows "\<exists>p. index db request today = Inr p"
proof -
  from totals_loop_cases [of "visible_transactions db request" "(\<lparr>income = 0, expense = 0\<rparr>, [])"] assms(1)
  obtain tot cat_sums where
    t: "totals_loop (visible_transactions db request) (\<lparr>income = 0, expense = 0\<rparr>, []) = Inr (tot, cat_sums)"
    by auto
  from monthly_series_cases [OF assms(3-6), of db] assms(7)
  obtain ins exs where s: "monthly_series db y m = Inr (ins, exs)" by auto
  from t s assms(2) show ?thesis by (simp add: index_unfold)
qed

theorem monthly_series_noninterference_witness:
  "\<exists>p1 p2. index march_db no_args mid_march = Inr p1 \<and>
            index march_db food_args mid_march = Inr p2 \<and>
            length (transactions p1) = 3 \<and> length (transactions p2) = 2 \<and>
            income_values p1 = income_values p2 \<and> expense_values p1 = expense_values p2"
proof -
  have v1: "visible_transactions march_db no_args = march_db"
    by (simp add: visible_transactions_def no_args_def get_default_def fetch_eval text_eval march_db_def)
  have v2: "visible_transactions march_db food_args = take 2 march_db"
    by (simp add: visible_transactions_def food_args_def get_default_def fetch_eval text_eval march_db_def)
  have c: "\<not> list_ex corrupt march_db" "\<not> list_ex corrupt (take 2 march_db)"
    "\<not> list_ex corrupt_dated march_db"
    by (simp_all add: march_db_def corrupt_def corrupt_dated_def)
  have rows: "monthly_transactions march_db 2024 3 = march_db"
    by (simp add: monthly_transactions_def calendar_eval fetch_eval march_db_def lit_def)
  have m1: "resolved_month mid_march no_args = (2024, 3)"
    by (simp add: resolved_month_def resolve_month_def no_args_def get_default_def mid_march_def)
  have m2: "resolved_month mid_march food_args = (2024, 3)"
    by (simp add: resolved_month_def resolve_month_def food_args_def get_default_def mid_march_def)
  from index_returns [OF _ m1, of march_db] c v1 rows
  obtain p1 where p1: "index march_db no_args mid_march = Inr p1" by auto
  from index_returns [OF _ m2, of march_db] c v2 rows
  obtain p2 where p2: "index march_db food_args mid_march = Inr p2" by auto
  have a: "arg_month no_args = arg_month food_args" by (simp add: no_args_def food_args_def)
  from index_Inr [OF p1] v1 have l1: "length (transactions p1) = 3" by (auto simp: march_db_def)
  from index_Inr [OF p2] v2 have l2: "length (transactions p2) = 2" by (auto simp: march_db_def)
  from monthly_series_noninterference [OF p1 p2 a]
  have "income_values p1 = income_values p2 \<and> expense_values p1 = expense_values p2" by blast
  with p1 p2 l1 l2 show ?thesis by blast
qed




section \<open>The resolved month\<close>

lemma resolve_month_fallback:
  assumes "month = [] \<or> parse_month month = None"
  shows "resolve_month today month = (d_year today, d_month today)"
  using assms by (auto simp: resolve_month_def)

lemma today_calendar:
  assumes "1 \<le> y" "y \<le> 9999" "1 \<le> m" "m \<le> 12"
  shows "\<exists>n first_day last_day. monthrange y m = Inr n \<and>
           date_isoformat y m 1 = Inr first_day \<and> date_isoformat y m n = Inr last_day"
proof -
  from assms have "1 \<le> nat m" and "nat m \<le> 12" by simp_all
  from days_of_month_range [OF this, of y]
  have r: "1 \<le> days_of_month y (nat m)" by linarith
  from assms have "monthrange y m = Inr (days_of_month y (nat m))"
    by (simp add: monthrange_def)
  moreover from assms r have "\<exists>s. date_isoformat y m 1 = Inr s"
    by (simp add: date_isoformat_def)
  moreover from assms r have "\<exists>s. date_isoformat y m (days_of_month y (nat m)) = Inr s"
    by (simp add: date_isoformat_def)
  ultimately show ?thesis by blast
qed

text \<open>
  Claim C2. A month parameter that is absent (the empty string) or does not parse as two
  integers resolves to the year and month of the current day, the same pair as for an
  absent parameter, so that \<open>index\<close> returns what it returns without the parameter; and
  for the month of a valid current day the calendar calls that follow do not raise.
\<close>

theorem malformed_month_fallback:
  assumes "month = [] \<or> parse_month month = None"
  shows "resolve_month today month = (d_year today, d_month today) \<and>
         resolve_month today month = resolve_month today [] \<and>
         index db (request\<lparr>arg_month := Some month\<rparr>) today =
           index db (request\<lparr>arg_month := None\<rparr>) today \<and>
         (1 \<le> d_year today \<and> d_year today \<le> 9999 \<and> 1 \<le> d_month today \<and> d_month today \<le> 12 \<longrightarrow>
            (\<exists>n first_day last_day.
               monthrange (fst (resolve_month today month)) (snd (resolve_month today month)) = Inr n \<and>
               date_isoformat (fst (resolve_month today month)) (snd (resolve_month today month)) 1 =
                 Inr first_day \<and>
               date_isoformat (fst (resolve_month today month)) (snd (resolve_month today month)) n =
                 Inr last_day))"
proof -
  have a: "resolve_month today month = (d_year today, d_month today)"
    using assms by (rule resolve_month_fallback)
  have b: "resolve_month today [] = (d_year today, d_month today)"
    by (simp add: resolve_month_def)
  have c: "index db (request\<lparr>arg_month := Some month\<rparr>) today =
           index db (request\<lparr>arg_month := None\<rparr>) today"
  proof -
    have v: "visible_transactions db (request\<lparr>arg_month := x\<rparr>) = visible_transactions db request" for x
      by (simp add: visible_transactions_def)
    have r1: "resolved_month today (request\<lparr>arg_month := Some month\<rparr>) = resolve_month today month"
      by (simp add: resolved_month_def get_default_def)
    have r2: "resolved_month today (request\<lparr>arg_month := None\<rparr>) = resolve_month today []"
      by (simp add: resolved_month_def get_default_def)
    show ?thesis by (simp only: index_unfold v r1 r2 a b)
  qed
  have d: "1 \<le> d_year today \<and> d_year today \<le> 9999 \<and> 1 \<le> d_month today \<and> d_month today \<le> 12 \<longrightarrow>
            (\<exists>n first_day last_day.
               monthrange (fst (resolve_month today month)) (snd (resolve_month today month)) = Inr n \<and>
               date_isoformat (fst (resolve_month today month)) (snd (resolve_month today month)) 1 =
                 Inr first_day \<and>
               date_isoformat (fst (resolve_month today month)) (snd (resolve_month today month)) n =
                 Inr last_day)"
    unfolding a using today_calendar [of "d_year today" "d_month today"] by simp
  from a b c d show ?thesis by simp
qed

lemmas int_eval = parse_month_def py_int_def digit_value_def digit_zeros_def

theorem malformed_month_fallback_witness:
  "parse_month (lit ''not-a-month'') = None \<and>
   resolve_month mid_march (lit ''not-a-month'') = (2024, 3) \<and>
   index march_db (no_args\<lparr>arg_month := Some (lit ''not-a-month'')\<rparr>) mid_march =
     index march_db no_args mid_march"
proof -
  have p: "parse_month (lit ''not-a-month'') = None"
    by (simp add: int_eval text_eval)
  have n: "no_args\<lparr>arg_month := None\<rparr> = no_args" by (simp add: no_args_def)
  from malformed_month_fallback [of "lit ''not-a-month''" mid_march march_db no_args] p n
  show ?thesis by (simp add: mid_march_def)
qed

section \<open>The totals and their rounding\<close>





























end
